theory Spec2Isabelle
  imports Complex_Main "HOL-Library.FSet"
begin

section \<open>Signal Decoder: the grid, the level catalog and the round engine of App.tsx\<close>

text \<open>
  The component keeps its whole state in React state cells. The model is a record of those
  cells, and every handler of the component is a function from state to state. JavaScript
  \<open>Set<number>\<close> values hold cell indices; they are finite sets of naturals here, so that
  \<open>size\<close> is \<open>fcard\<close>. The score is an integer, since the handler computes a difference
  that can be negative before flooring it.
\<close>

subsection \<open>Constants\<close>

definition GRID_SIZE :: nat where
  "GRID_SIZE = 5"

definition FLASH_DURATION_MS :: nat where
  "FLASH_DURATION_MS = 10000"

definition FLASH_INTERVAL_MS :: nat where
  "FLASH_INTERVAL_MS = 600"

subsection \<open>Cells and the grid builder\<close>

record Cell =
  index :: nat
  row :: nat
  col :: nat

text \<open>
  The \<open>for\<close> loop of \<open>buildCells\<close>, with the grid side \<open>n\<close> it reads, the loop counter
  \<open>i\<close> and the array \<open>cells\<close> built so far: \<open>push\<close> appends at the end.
\<close>

function buildCells_loop :: "nat \<Rightarrow> nat \<Rightarrow> Cell list \<Rightarrow> Cell list" where
  "buildCells_loop n i cells =
     (if i < n * n
      then buildCells_loop n (i + 1)
             (cells @ [\<lparr>index = i, row = i div n, col = i mod n\<rparr>])
      else cells)"
  by pat_completeness auto
termination
  by (relation "measure (\<lambda>(n, i, cells). n * n - i)") auto

declare buildCells_loop.simps [simp del]

definition buildCells :: "Cell list" where
  "buildCells = buildCells_loop GRID_SIZE 0 []"

subsection \<open>The primality test\<close>

text \<open>The loop \<open>for (let i = 2; i * i <= n; i++) if (n % i === 0) return false\<close>.\<close>

function isPrime_loop :: "nat \<Rightarrow> nat \<Rightarrow> bool" where
  "isPrime_loop n i =
     (if i * i \<le> n
      then (if n mod i = 0 then False else isPrime_loop n (i + 1))
      else True)"
  by pat_completeness auto
termination
proof (relation "measure (\<lambda>(n, i). n + 1 - i)")
  show "wf (measure (\<lambda>(n::nat, i::nat). n + 1 - i))"
    by simp
next
  fix n i :: nat
  assume le: "i * i \<le> n"
  have "i \<le> i * i"
    by (cases i) simp_all
  from this le have "i \<le> n"
    by (rule order_trans)
  then show "((n, i + 1), (n, i)) \<in> measure (\<lambda>(n, i). n + 1 - i)"
    by simp
qed

declare isPrime_loop.simps [simp del]

definition isPrime :: "nat \<Rightarrow> bool" where
  "isPrime n = (if n < 2 then False else isPrime_loop n 2)"

subsection \<open>The level catalog\<close>

record Level =
  level_id :: nat
  title :: string
  ruleDescription :: string
  ruleFn :: "Cell \<Rightarrow> bool"

text \<open>The rule of level 4: the differences are taken in the integers, as \<open>Math.abs\<close> needs.\<close>

definition centerRule :: "Cell \<Rightarrow> bool" where
  "centerRule c =
     (let center = (GRID_SIZE * GRID_SIZE) div 2;
          cr = center div GRID_SIZE;
          cc = center mod GRID_SIZE;
          dr = \<bar>int (row c) - int cr\<bar>;
          dc = \<bar>int (col c) - int cc\<bar>
      in (dr = 0 \<and> dc = 0) \<or> dr + dc = 1)"

definition LEVELS :: "Level list" where
  "LEVELS =
     [\<lparr>level_id = 1, title = ''Even indices'', ruleDescription = ''index % 2 === 0'',
        ruleFn = (\<lambda>c. index c mod 2 = 0)\<rparr>,
      \<lparr>level_id = 2, title = ''Diagonals'', ruleDescription = ''main diagonals'',
        ruleFn = (\<lambda>c. row c = col c \<or> row c + col c = GRID_SIZE - 1)\<rparr>,
      \<lparr>level_id = 3, title = ''Prime indices'', ruleDescription = ''prime indices'',
        ruleFn = (\<lambda>c. isPrime (index c))\<rparr>,
      \<lparr>level_id = 4, title = ''Center cluster'', ruleDescription = ''center + 4 neighbours'',
        ruleFn = centerRule\<rparr>,
      \<lparr>level_id = 5, title = ''(r + c) % 3 === 0'', ruleDescription = ''(row+col)%3===0'',
        ruleFn = (\<lambda>c. (row c + col c) mod 3 = 0)\<rparr>]"

subsection \<open>The target set\<close>

text \<open>The loop \<open>for (const c of cells) if (level.ruleFn(c)) s.add(c.index)\<close>.\<close>

fun targetSet_loop :: "Level \<Rightarrow> Cell list \<Rightarrow> nat fset \<Rightarrow> nat fset" where
  "targetSet_loop level [] s = s"
| "targetSet_loop level (c # cs) s =
     targetSet_loop level cs (if ruleFn level c then finsert (index c) s else s)"

definition targetSet :: "Cell list \<Rightarrow> Level \<Rightarrow> nat fset" where
  "targetSet cells level = targetSet_loop level cells {||}"

subsection \<open>The component state\<close>

record Results =
  correct :: "nat fset"
  incorrect :: "nat fset"

record State =
  levelIndex :: nat
  isFlashing :: bool
  flashOn :: bool
  selected :: "nat fset"
  results :: "Results option"
  score :: int
  hintShown :: bool
  timeLeft :: nat
  round_ctr :: nat

text \<open>The initial values of the \<open>useState\<close> cells; \<open>round_ctr\<close> is the cell \<open>round\<close>.\<close>

definition fullTime :: nat where
  "fullTime = nat \<lceil>real FLASH_DURATION_MS / 1000\<rceil>"

definition initialState :: State where
  "initialState =
     \<lparr>levelIndex = 0, isFlashing = True, flashOn = True, selected = {||}, results = None,
      score = 0, hintShown = False, timeLeft = fullTime, round_ctr = 0\<rparr>"

text \<open>
  The body of the effect that runs when \<open>levelIndex\<close> or \<open>round\<close> changes: it resets the
  round-local cells. The timers it starts are the three timer events below.
\<close>

definition startRound :: "State \<Rightarrow> State" where
  "startRound s =
     s\<lparr>isFlashing := True, flashOn := True, selected := {||}, results := None,
       hintShown := False, timeLeft := fullTime\<rparr>"

text \<open>The level and the target set that one render of the component computes.\<close>

definition currentLevel :: "State \<Rightarrow> Level" where
  "currentLevel s = LEVELS ! levelIndex s"

definition currentTargetSet :: "State \<Rightarrow> nat fset" where
  "currentTargetSet s = targetSet buildCells (currentLevel s)"

subsection \<open>The handlers\<close>

definition toggleSelect :: "nat \<Rightarrow> State \<Rightarrow> State" where
  "toggleSelect idx s =
     (if isFlashing s then s
      else if results s \<noteq> None then s
      else s\<lparr>selected :=
               (if idx |\<in>| selected s then selected s |-| {|idx|}
                else finsert idx (selected s))\<rparr>)"

text \<open>
  \<open>submit\<close> reads the target set \<open>ts\<close> of the current render. Its two loops run over a
  set and sort each element by a membership test, so each is a filter of that set.
\<close>

definition submit :: "nat fset \<Rightarrow> State \<Rightarrow> State" where
  "submit ts s =
     (if isFlashing s then s
      else
        let correct = ffilter (\<lambda>idx. idx |\<in>| ts) (selected s);
            incorrect = ffilter (\<lambda>idx. idx |\<notin>| ts) (selected s);
            missed = ffilter (\<lambda>t. t |\<notin>| selected s) ts;
            delta = int (fcard correct) - int (fcard incorrect)
        in s\<lparr>score := score s + max 0 delta,
             results := Some \<lparr>correct = correct, incorrect = incorrect |\<union>| missed\<rparr>\<rparr>)"

text \<open>
  \<open>setLevelIndex\<close> with the effect that follows it: the effect depends on
  \<open>levelIndex\<close> and \<open>round\<close>, so it runs again only when one of them has changed.
\<close>

definition setLevelIndex :: "nat \<Rightarrow> State \<Rightarrow> State" where
  "setLevelIndex i s = (if i = levelIndex s then s else startRound (s\<lparr>levelIndex := i\<rparr>))"

definition nextLevel :: "State \<Rightarrow> State" where
  "nextLevel s = setLevelIndex (min (length LEVELS - 1) (levelIndex s + 1)) s"

definition prevLevel :: "State \<Rightarrow> State" where
  "prevLevel s = setLevelIndex (nat (max 0 (int (levelIndex s) - 1))) s"

definition resetLevel :: "State \<Rightarrow> State" where
  "resetLevel s = startRound (s\<lparr>round_ctr := round_ctr s + 1\<rparr>)"

definition toggleHint :: "State \<Rightarrow> State" where
  "toggleHint s = s\<lparr>hintShown := \<not> hintShown s\<rparr>"

subsection \<open>The controls and the timers\<close>

text \<open>
  The Prev and Next buttons are disabled at the first and at the last level. The Submit
  button carries \<open>disabled={isFlashing || !!results}\<close>, but that attribute is fixed when the
  component renders and the handler itself tests \<open>isFlashing\<close> only: an activation that
  arrives before the next render runs the handler whatever \<open>results\<close> holds. The Submit
  event below is therefore the handler, on the target set of the current level.
\<close>

definition clickPrev :: "State \<Rightarrow> State" where
  "clickPrev s = (if levelIndex s = 0 then s else prevLevel s)"

definition clickNext :: "State \<Rightarrow> State" where
  "clickNext s = (if levelIndex s = length LEVELS - 1 then s else nextLevel s)"

text \<open>
  The callbacks of the two intervals and of the timeout. All three are cleared when the
  timeout fires or the effect is cleaned up, so they run only while \<open>isFlashing\<close> holds.
\<close>

definition flashTick :: "State \<Rightarrow> State" where
  "flashTick s = s\<lparr>flashOn := \<not> flashOn s\<rparr>"

definition countdownTick :: "State \<Rightarrow> State" where
  "countdownTick s = s\<lparr>timeLeft := (if timeLeft s > 0 then timeLeft s - 1 else 0)\<rparr>"

definition stopFlashing :: "State \<Rightarrow> State" where
  "stopFlashing s = s\<lparr>isFlashing := False, flashOn := False\<rparr>"

datatype Event =
    ToggleSelect nat
  | Submit
  | NextLevel
  | PrevLevel
  | SelectLevel nat
  | ResetLevel
  | ToggleHint
  | FlashTick
  | CountdownTick
  | FlashTimeout

text \<open>
  One event of the running component. A level button exists for each catalog position
  only, and a cell for each grid index only.
\<close>

fun step :: "Event \<Rightarrow> State \<Rightarrow> State" where
  "step (ToggleSelect idx) s = (if idx < GRID_SIZE * GRID_SIZE then toggleSelect idx s else s)"
| "step Submit s = submit (currentTargetSet s) s"
| "step NextLevel s = clickNext s"
| "step PrevLevel s = clickPrev s"
| "step (SelectLevel i) s = (if i < length LEVELS then setLevelIndex i s else s)"
| "step ResetLevel s = resetLevel s"
| "step ToggleHint s = toggleHint s"
| "step FlashTick s = (if isFlashing s then flashTick s else s)"
| "step CountdownTick s = (if isFlashing s then countdownTick s else s)"
| "step FlashTimeout s = (if isFlashing s then stopFlashing s else s)"

fun run :: "Event list \<Rightarrow> State \<Rightarrow> State" where
  "run [] s = s"
| "run (e # es) s = run es (step e s)"

subsection \<open>The phase of a round\<close>

text \<open>
  The component has no phase cell: the heading it renders reads the phase off
  \<open>isFlashing\<close> and \<open>results\<close>, in this order
  (\<open>isFlashing ? "Memorize" : results ? "Result" : "Select the cells"\<close>).
\<close>

datatype Phase = Memorizing | Selecting | Resulted

definition phase :: "State \<Rightarrow> Phase" where
  "phase s =
     (if isFlashing s then Memorizing else if results s \<noteq> None then Resulted else Selecting)"

subsection \<open>Sample states\<close>

text \<open>
  A round of level 1 after the memorize timeout, with cells 0 and 1 selected; and the same
  round after cell 0 alone was selected and submitted.
\<close>

definition sampleSelecting :: State where
  "sampleSelecting =
     \<lparr>levelIndex = 0, isFlashing = False, flashOn = False, selected = {|0, 1|}, results = None,
      score = 0, hintShown = False, timeLeft = 10, round_ctr = 0\<rparr>"

definition sampleResulted :: State where
  "sampleResulted =
     \<lparr>levelIndex = 0, isFlashing = False, flashOn = False, selected = {|0|},
      results = Some \<lparr>correct = {|0|}, incorrect = {|2, 4, 6, 8, 10, 12, 14, 16, 18, 20, 22, 24|}\<rparr>,
      score = 1, hintShown = False, timeLeft = 10, round_ctr = 0\<rparr>"

subsection \<open>Primality as the specification words it\<close>

text \<open>
  Two reference predicates for the rule of level 3: trial division by every \<open>d\<close> with
  \<open>d * d \<le> n\<close>, and the usual definition of a prime number.
\<close>

definition trial_division_prime :: "nat \<Rightarrow> bool" where
  "trial_division_prime n = (\<not> n < 2 \<and> (\<forall>d. 2 \<le> d \<and> d * d \<le> n \<longrightarrow> \<not> d dvd n))"

definition prime_spec :: "nat \<Rightarrow> bool" where
  "prime_spec n = (1 < n \<and> (\<forall>d. d dvd n \<longrightarrow> d = 1 \<or> d = n))"

subsection \<open>The rules as the specification words them\<close>

text \<open>
  Reference definitions for the five catalog rules on the 5 by 5 grid, written from the
  specification and compared with the catalog below: the cell of index \<open>i\<close>, the Manhattan
  distance of two cells, the rule of level \<open>k\<close> (counted from 1) and the set of indices
  of the grid cells that satisfy it.
\<close>

definition spec_cell :: "nat \<Rightarrow> Cell" where
  "spec_cell i = \<lparr>index = i, row = i div 5, col = i mod 5\<rparr>"

definition manhattan :: "Cell \<Rightarrow> Cell \<Rightarrow> int" where
  "manhattan c d = \<bar>int (row c) - int (row d)\<bar> + \<bar>int (col c) - int (col d)\<bar>"

definition spec_rule :: "nat \<Rightarrow> Cell \<Rightarrow> bool" where
  "spec_rule k c =
     (if k = 1 then index c mod 2 = 0
      else if k = 2 then row c = col c \<or> row c + col c = 4
      else if k = 3 then prime_spec (index c)
      else if k = 4 then manhattan c (spec_cell 12) \<le> 1
      else (row c + col c) mod 3 = 0)"

definition spec_targetSet :: "nat \<Rightarrow> nat fset" where
  "spec_targetSet k = fset_of_list (filter (\<lambda>i. spec_rule k (spec_cell i)) [0..<25])"

section \<open>Properties of the grid builder\<close>

lemma buildCells_loop_step:
  "i < n * n \<Longrightarrow> buildCells_loop n i cells =
     buildCells_loop n (i + 1) (cells @ [\<lparr>index = i, row = i div n, col = i mod n\<rparr>])"
  by (subst buildCells_loop.simps) simp

lemma buildCells_loop_done:
  "\<not> i < n * n \<Longrightarrow> buildCells_loop n i cells = cells"
  by (subst buildCells_loop.simps) simp

lemma buildCells_loop_eq:
  "i \<le> n * n \<Longrightarrow> buildCells_loop n i cells =
     cells @ map (\<lambda>k. \<lparr>index = k, row = k div n, col = k mod n\<rparr>) [i..<n * n]"
proof (induction n i cells rule: buildCells_loop.induct)
  case (1 n i cells)
  show ?case
  proof (cases "i < n * n")
    case True
    then have "buildCells_loop n i cells =
        buildCells_loop n (i + 1) (cells @ [\<lparr>index = i, row = i div n, col = i mod n\<rparr>])"
      by (rule buildCells_loop_step)
    also have "\<dots> = (cells @ [\<lparr>index = i, row = i div n, col = i mod n\<rparr>])
        @ map (\<lambda>k. \<lparr>index = k, row = k div n, col = k mod n\<rparr>) [i + 1..<n * n]"
      using True by (intro "1.IH") simp_all
    also have "\<dots> = cells @ map (\<lambda>k. \<lparr>index = k, row = k div n, col = k mod n\<rparr>) [i..<n * n]"
      using True by (simp add: upt_conv_Cons)
    finally show ?thesis .
  next
    case False
    with "1.prems" have "i = n * n" by simp
    with False show ?thesis by (simp add: buildCells_loop_done)
  qed
qed

lemma buildCells_map:
  "buildCells = map (\<lambda>k. \<lparr>index = k, row = k div 5, col = k mod 5\<rparr>) [0..<25]"
  by (simp add: buildCells_def buildCells_loop_eq GRID_SIZE_def)

text \<open>
  Claim C4. For every grid side \<open>n\<close> the loop of the grid builder, started with the counter at
  0 and an empty array, returns exactly \<open>n * n\<close> cells in row-major order: the cell at
  position \<open>i\<close> has index \<open>i\<close>, row \<open>i div n\<close> and column \<open>i mod n\<close>, so the indices are
  \<open>0, \<dots>, n * n - 1\<close>, each once. The component's \<open>buildCells\<close> is this loop at the
  side 5.
\<close>
theorem buildCells_grid:
  "length (buildCells_loop n 0 []) = n * n
   \<and> (\<forall>i < n * n. buildCells_loop n 0 [] ! i = \<lparr>index = i, row = i div n, col = i mod n\<rparr>)
   \<and> map index (buildCells_loop n 0 []) = [0..<n * n]
   \<and> distinct (map index (buildCells_loop n 0 []))
   \<and> buildCells = buildCells_loop 5 0 []"
proof -
  have eq: "buildCells_loop n 0 [] = map (\<lambda>k. \<lparr>index = k, row = k div n, col = k mod n\<rparr>) [0..<n * n]"
    by (simp add: buildCells_loop_eq)
  have idx: "map index (buildCells_loop n 0 []) = [0..<n * n]"
    by (simp add: eq comp_def)
  have "distinct (map index (buildCells_loop n 0 []))"
    by (simp only: idx distinct_upt)
  moreover have "length (buildCells_loop n 0 []) = n * n"
    by (simp add: eq)
  moreover have "\<forall>i < n * n. buildCells_loop n 0 [] ! i = \<lparr>index = i, row = i div n, col = i mod n\<rparr>"
    by (simp add: eq)
  moreover have "buildCells = buildCells_loop 5 0 []"
    by (simp add: buildCells_def GRID_SIZE_def)
  ultimately show ?thesis using idx by simp
qed

theorem buildCells_grid_witness:
  "(7::nat) < 5 * 5 \<and> length buildCells = 25 \<and> buildCells ! 7 = \<lparr>index = 7, row = 1, col = 2\<rparr>
   \<and> map index buildCells = [0..<25]"
proof -
  note g = buildCells_grid [of 5]
  from g have bc: "buildCells = buildCells_loop 5 0 []" by simp
  have "\<forall>i < 5 * 5. buildCells_loop 5 0 [] ! i = \<lparr>index = i, row = i div 5, col = i mod 5\<rparr>"
    by (rule conjunct1 [OF conjunct2 [OF g]])
  then have "(7::nat) < 5 * 5 \<longrightarrow> buildCells_loop 5 0 [] ! 7 = \<lparr>index = 7, row = 7 div 5, col = 7 mod 5\<rparr>"
    by (rule spec)
  then have "buildCells ! 7 = \<lparr>index = 7, row = 1, col = 2\<rparr>"
    by (simp add: bc)
  moreover from g have "length buildCells = 25" by (simp add: bc)
  moreover from g have "map index buildCells = [0..<25]" by (simp add: bc)
  ultimately show ?thesis by simp
qed

section \<open>Properties of the primality test\<close>

lemma isPrime_loop_unfold_true:
  "i * i \<le> n \<Longrightarrow> n mod i \<noteq> 0 \<Longrightarrow> isPrime_loop n i = isPrime_loop n (i + 1)"
  by (subst isPrime_loop.simps) simp

lemma isPrime_loop_divides:
  "i * i \<le> n \<Longrightarrow> n mod i = 0 \<Longrightarrow> \<not> isPrime_loop n i"
  by (subst isPrime_loop.simps) simp

lemma isPrime_loop_done:
  "\<not> i * i \<le> n \<Longrightarrow> isPrime_loop n i"
  by (subst isPrime_loop.simps) simp

lemma isPrime_loop_iff:
  "isPrime_loop n i \<longleftrightarrow> (\<forall>d. i \<le> d \<and> d * d \<le> n \<longrightarrow> n mod d \<noteq> 0)"
proof (induction n i rule: isPrime_loop.induct)
  case (1 n i)
  show ?case
  proof (cases "i * i \<le> n")
    case le: True
    show ?thesis
    proof (cases "n mod i = 0")
      case True
      from le True have no: "\<not> isPrime_loop n i"
        by (rule isPrime_loop_divides)
      have "\<not> (\<forall>d. i \<le> d \<and> d * d \<le> n \<longrightarrow> n mod d \<noteq> 0)"
      proof
        assume "\<forall>d. i \<le> d \<and> d * d \<le> n \<longrightarrow> n mod d \<noteq> 0"
        then have "i \<le> i \<and> i * i \<le> n \<longrightarrow> n mod i \<noteq> 0" ..
        with le True show False by simp
      qed
      with no show ?thesis by simp
    next
      case nd: False
      have ih: "isPrime_loop n (i + 1) \<longleftrightarrow> (\<forall>d. i + 1 \<le> d \<and> d * d \<le> n \<longrightarrow> n mod d \<noteq> 0)"
        using le nd by (rule "1.IH")
      have "(\<forall>d. i + 1 \<le> d \<and> d * d \<le> n \<longrightarrow> n mod d \<noteq> 0)
            \<longleftrightarrow> (\<forall>d. i \<le> d \<and> d * d \<le> n \<longrightarrow> n mod d \<noteq> 0)"
      proof
        assume h: "\<forall>d. i + 1 \<le> d \<and> d * d \<le> n \<longrightarrow> n mod d \<noteq> 0"
        show "\<forall>d. i \<le> d \<and> d * d \<le> n \<longrightarrow> n mod d \<noteq> 0"
        proof (intro allI impI)
          fix d assume d: "i \<le> d \<and> d * d \<le> n"
          show "n mod d \<noteq> 0"
          proof (cases "d = i")
            case True
            with nd show ?thesis by simp
          next
            case False
            with d have "i + 1 \<le> d" by simp
            with h d show ?thesis by blast
          qed
        qed
      next
        assume h: "\<forall>d. i \<le> d \<and> d * d \<le> n \<longrightarrow> n mod d \<noteq> 0"
        show "\<forall>d. i + 1 \<le> d \<and> d * d \<le> n \<longrightarrow> n mod d \<noteq> 0"
        proof (intro allI impI)
          fix d assume d: "i + 1 \<le> d \<and> d * d \<le> n"
          then have "i \<le> d \<and> d * d \<le> n" by simp
          with h show "n mod d \<noteq> 0" by blast
        qed
      qed
      with ih isPrime_loop_unfold_true [OF le nd] show ?thesis
        by simp
    qed
  next
    case gt: False
    have vac: "\<forall>d. i \<le> d \<and> d * d \<le> n \<longrightarrow> n mod d \<noteq> 0"
    proof (intro allI impI)
      fix d assume d: "i \<le> d \<and> d * d \<le> n"
      then have "i * i \<le> d * d" by (simp add: mult_le_mono)
      with d gt have False by simp
      then show "n mod d \<noteq> 0" ..
    qed
    from gt have "isPrime_loop n i"
      by (rule isPrime_loop_done)
    with vac show ?thesis by simp
  qed
qed

lemma isPrime_trial: "isPrime n = trial_division_prime n"
  by (simp add: isPrime_def trial_division_prime_def isPrime_loop_iff dvd_eq_mod_eq_0)


lemma trial_division_prime_iff: "trial_division_prime n = prime_spec n"
proof
  assume t: "trial_division_prime n"
  then have n2: "2 \<le> n" and nodiv: "\<And>d. 2 \<le> d \<Longrightarrow> d * d \<le> n \<Longrightarrow> \<not> d dvd n"
    by (auto simp: trial_division_prime_def)
  have "d = 1 \<or> d = n" if dv: "d dvd n" for d
  proof (rule ccontr)
    assume neg: "\<not> (d = 1 \<or> d = n)"
    from dv obtain k where k: "n = d * k" by (auto simp: dvd_def)
    have d0: "d \<noteq> 0"
    proof
      assume "d = 0"
      with k n2 show False by simp
    qed
    have k0: "k \<noteq> 0"
    proof
      assume "k = 0"
      with k n2 show False by simp
    qed
    from neg k have k1: "k \<noteq> 1" by auto
    from d0 neg have d2: "2 \<le> d" by simp
    from k0 k1 have k2: "2 \<le> k" by simp
    show False
    proof (cases "d \<le> k")
      case True
      then have "d * d \<le> n" using k by simp
      with nodiv [OF d2] dv show False by simp
    next
      case False
      then have "k * k \<le> n" using k by (simp add: mult.commute)
      moreover have "k dvd n" using k by simp
      ultimately show False using nodiv [OF k2] by simp
    qed
  qed
  with n2 show "prime_spec n" by (simp add: prime_spec_def)
next
  assume p: "prime_spec n"
  then have n1: "1 < n" and pr: "\<And>d. d dvd n \<Longrightarrow> d = 1 \<or> d = n"
    by (auto simp: prime_spec_def)
  have "\<not> d dvd n" if d: "2 \<le> d" "d * d \<le> n" for d
  proof
    assume "d dvd n"
    then have "d = 1 \<or> d = n" by (rule pr)
    with d have dn: "d = n" by simp
    with d have "n * n \<le> n" by simp
    moreover from n1 have "n * 2 \<le> n * n" by (simp only: mult_le_mono2)
    ultimately show False using n1 by simp
  qed
  with n1 show "trial_division_prime n" by (auto simp: trial_division_prime_def)
qed

section \<open>Properties of the target sets\<close>

lemma targetSet_loop_eq:
  "targetSet_loop level cs s = s |\<union>| fset_of_list (map index (filter (ruleFn level) cs))"
  by (induction cs arbitrary: s) auto

lemma targetSet_eq:
  "targetSet cells level = fset_of_list (map index (filter (ruleFn level) cells))"
  by (simp add: targetSet_def targetSet_loop_eq)

lemma targetSet_buildCells:
  "targetSet buildCells level
     = fset_of_list (filter (\<lambda>k. ruleFn level \<lparr>index = k, row = k div 5, col = k mod 5\<rparr>) [0..<25])"
  by (simp add: targetSet_eq buildCells_map filter_map comp_def del: fset_of_list_filter fset_of_list_map)

lemma upt_25: "[0..<25] = [0,1,2,3,4,5,6,7,8,9,10,11,12,13,14,15,16,17,18,19,20,21,22,23,24::nat]"
  by (simp add: upt_rec)

lemma isPrime_table:
  "map isPrime [0,1,2,3,4,5,6,7,8,9,10,11,12,13,14,15,16,17,18,19,20,21,22,23,24]
   = [False, False, True, True, False, True, False, True, False, False, False, True, False, True,
      False, False, False, True, False, True, False, False, False, True, False]"
  by code_simp

lemma targets_level1: "targetSet buildCells (LEVELS ! 0) = {|0,2,4,6,8,10,12,14,16,18,20,22,24|}"
  by (simp add: targetSet_buildCells LEVELS_def upt_25)

lemma targets_level2: "targetSet buildCells (LEVELS ! 1) = {|0,4,6,8,12,16,18,20,24|}"
  by (simp add: targetSet_buildCells LEVELS_def upt_25 GRID_SIZE_def)

lemma targets_level3: "targetSet buildCells (LEVELS ! 2) = {|2,3,5,7,11,13,17,19,23|}"
  using isPrime_table by (simp add: targetSet_buildCells LEVELS_def upt_25)

lemma targets_level4: "targetSet buildCells (LEVELS ! 3) = {|7,11,12,13,17|}"
  by (simp add: targetSet_buildCells LEVELS_def upt_25 GRID_SIZE_def centerRule_def)

lemma targets_level5: "targetSet buildCells (LEVELS ! 4) = {|0,3,7,11,14,15,18,22|}"
  by (simp add: targetSet_buildCells LEVELS_def upt_25)

lemma spec_cell_12: "spec_cell 12 = \<lparr>index = 12, row = 2, col = 2\<rparr>"
  by (simp add: spec_cell_def)

lemma centerRule_manhattan: "centerRule c = (manhattan c (spec_cell 12) \<le> 1)"
  by (auto simp: centerRule_def manhattan_def spec_cell_12 GRID_SIZE_def Let_def)

lemma ruleFn_spec_rule:
  "ruleFn (LEVELS ! 0) c = spec_rule 1 c"
  "ruleFn (LEVELS ! 1) c = spec_rule 2 c"
  "ruleFn (LEVELS ! 2) c = spec_rule 3 c"
  "ruleFn (LEVELS ! 3) c = spec_rule 4 c"
  "ruleFn (LEVELS ! 4) c = spec_rule 5 c"
  by (simp_all add: LEVELS_def spec_rule_def GRID_SIZE_def isPrime_trial trial_division_prime_iff
      centerRule_manhattan)

lemma targetSet_spec:
  "(\<And>c. ruleFn level c = spec_rule k c) \<Longrightarrow> targetSet buildCells level = spec_targetSet k"
  by (simp add: targetSet_buildCells spec_targetSet_def spec_cell_def
      del: fset_of_list_filter)

text \<open>
  Claim C5. On the 5 by 5 grid the target set computed for each of the five catalog levels is
  the set of indices of the grid cells that satisfy the specification's rule for that level:
  even index; on a diagonal (\<open>row = col\<close> or \<open>row + col = 4\<close>); prime index; Manhattan distance
  at most 1 from the cell of index 12; \<open>(row + col) mod 3 = 0\<close>. The five sets are listed, the
  first being the even indices up to 24. The primality test of the code agrees, on every
  natural number, with primality and with trial division up to the square root; numbers
  below 2 are not prime.
\<close>
theorem level_target_sets:
  "targetSet buildCells (LEVELS ! 0) = spec_targetSet 1
   \<and> targetSet buildCells (LEVELS ! 1) = spec_targetSet 2
   \<and> targetSet buildCells (LEVELS ! 2) = spec_targetSet 3
   \<and> targetSet buildCells (LEVELS ! 3) = spec_targetSet 4
   \<and> targetSet buildCells (LEVELS ! 4) = spec_targetSet 5
   \<and> targetSet buildCells (LEVELS ! 0) = {|0, 2, 4, 6, 8, 10, 12, 14, 16, 18, 20, 22, 24|}
   \<and> targetSet buildCells (LEVELS ! 1) = {|0, 4, 6, 8, 12, 16, 18, 20, 24|}
   \<and> targetSet buildCells (LEVELS ! 2) = {|2, 3, 5, 7, 11, 13, 17, 19, 23|}
   \<and> targetSet buildCells (LEVELS ! 3) = {|7, 11, 12, 13, 17|}
   \<and> targetSet buildCells (LEVELS ! 4) = {|0, 3, 7, 11, 14, 15, 18, 22|}
   \<and> length LEVELS = 5
   \<and> (\<forall>n. isPrime n = prime_spec n)
   \<and> (\<forall>n. isPrime n = trial_division_prime n)"
proof (intro conjI allI)
  show "targetSet buildCells (LEVELS ! 0) = spec_targetSet 1"
    by (rule targetSet_spec) (rule ruleFn_spec_rule)
  show "targetSet buildCells (LEVELS ! 1) = spec_targetSet 2"
    by (rule targetSet_spec) (rule ruleFn_spec_rule)
  show "targetSet buildCells (LEVELS ! 2) = spec_targetSet 3"
    by (rule targetSet_spec) (rule ruleFn_spec_rule)
  show "targetSet buildCells (LEVELS ! 3) = spec_targetSet 4"
    by (rule targetSet_spec) (rule ruleFn_spec_rule)
  show "targetSet buildCells (LEVELS ! 4) = spec_targetSet 5"
    by (rule targetSet_spec) (rule ruleFn_spec_rule)
  show "targetSet buildCells (LEVELS ! 0) = {|0, 2, 4, 6, 8, 10, 12, 14, 16, 18, 20, 22, 24|}"
    by (rule targets_level1)
  show "targetSet buildCells (LEVELS ! 1) = {|0, 4, 6, 8, 12, 16, 18, 20, 24|}"
    by (rule targets_level2)
  show "targetSet buildCells (LEVELS ! 2) = {|2, 3, 5, 7, 11, 13, 17, 19, 23|}"
    by (rule targets_level3)
  show "targetSet buildCells (LEVELS ! 3) = {|7, 11, 12, 13, 17|}"
    by (rule targets_level4)
  show "targetSet buildCells (LEVELS ! 4) = {|0, 3, 7, 11, 14, 15, 18, 22|}"
    by (rule targets_level5)
  show "length LEVELS = 5"
    by (simp add: LEVELS_def)
  show "isPrime n = prime_spec n" for n
    by (simp add: isPrime_trial trial_division_prime_iff)
  show "isPrime n = trial_division_prime n" for n
    by (rule isPrime_trial)
qed

theorem level_target_sets_witness:
  "spec_targetSet 3 = {|2, 3, 5, 7, 11, 13, 17, 19, 23|} \<and> prime_spec 7 \<and> \<not> prime_spec 1
   \<and> \<not> prime_spec 9 \<and> isPrime 23"
proof -
  note t = level_target_sets
  from t have p: "\<And>n. isPrime n = prime_spec n" by (elim conjE) simp
  from t have "spec_targetSet 3 = {|2, 3, 5, 7, 11, 13, 17, 19, 23|}" by (elim conjE) simp
  moreover have "isPrime 7" "\<not> isPrime 1" "\<not> isPrime 9" "isPrime 23" by code_simp+
  ultimately show ?thesis by (simp add: p [symmetric])
qed

section \<open>Properties of the round engine\<close>

subsection \<open>Submission\<close>

lemma ffilter_member: "ffilter (\<lambda>x. x |\<in>| B) A = A |\<inter>| B"
  by auto

lemma ffilter_not_member: "ffilter (\<lambda>x. x |\<notin>| B) A = A |-| B"
  by auto

lemma submit_flashing: "isFlashing s \<Longrightarrow> submit ts s = s"
  by (simp add: submit_def)

lemma submit_unfold:
  "\<not> isFlashing s \<Longrightarrow> submit ts s =
     s\<lparr>score := score s
          + max 0 (int (fcard (selected s |\<inter>| ts)) - int (fcard (selected s |-| ts))),
       results := Some \<lparr>correct = selected s |\<inter>| ts,
                           incorrect = (selected s |-| ts) |\<union>| (ts |-| selected s)\<rparr>\<rparr>"
  by (simp add: submit_def Let_def ffilter_member ffilter_not_member)

lemmas fset_eval = finter_finsert_left finsert_fminus_if fcard_finsert_if

lemma fullTime_10: "fullTime = 10"
  by (simp add: fullTime_def FLASH_DURATION_MS_def)

lemma run_sampleResulted:
  "run [FlashTimeout, ToggleSelect 0, Submit] initialState = sampleResulted"
  by (simp add: initialState_def sampleResulted_def stopFlashing_def toggleSelect_def
      submit_unfold currentTargetSet_def currentLevel_def
      targets_level1 GRID_SIZE_def fullTime_10 fset_eval)


lemma submit_results:
  "\<not> isFlashing s \<Longrightarrow> results (submit ts s) =
     Some \<lparr>correct = selected s |\<inter>| ts,
           incorrect = (selected s |-| ts) |\<union>| (ts |-| selected s)\<rparr>"
  by (simp add: submit_unfold)

lemma submit_score:
  "\<not> isFlashing s \<Longrightarrow> score (submit ts s) =
     score s + max 0 (int (fcard (selected s |\<inter>| ts)) - int (fcard (selected s |-| ts)))"
  by (simp add: submit_unfold)

lemma submit_score_le: "score s \<le> score (submit ts s)"
  by (cases "isFlashing s") (simp_all add: submit_flashing submit_score)

lemma run_append: "run (es @ es') s = run es' (run es s)"
  by (induction es arbitrary: s) simp_all


text \<open>
  Claim C2. When the round is not flashing, \<open>submit\<close> adds to the score exactly
  \<open>max 0 (|selection \<inter> targets| - |selection - targets|)\<close>, for every selection and every
  target set. Missed targets do not count: dropping every unselected cell from the target set
  gives the same score. The score never goes down, and a non-empty selection disjoint from
  the target set gives an empty correct set and adds 0.
\<close>
theorem submit_score_delta:
  assumes "\<not> isFlashing s"
  shows "score (submit ts s) =
           score s + max 0 (int (fcard (selected s |\<inter>| ts)) - int (fcard (selected s |-| ts)))
         \<and> score (submit ts s) = score (submit (ts |\<inter>| selected s) s)
         \<and> score s \<le> score (submit ts s)
         \<and> (selected s \<noteq> {||} \<and> selected s |\<inter>| ts = {||} \<longrightarrow>
              (\<exists>r. results (submit ts s) = Some r \<and> correct r = {||})
              \<and> score (submit ts s) = score s)"
proof (intro conjI impI)
  show "score (submit ts s) =
          score s + max 0 (int (fcard (selected s |\<inter>| ts)) - int (fcard (selected s |-| ts)))"
    using assms by (rule submit_score)
next
  have "selected s |\<inter>| (ts |\<inter>| selected s) = selected s |\<inter>| ts"
    by auto
  moreover have "selected s |-| (ts |\<inter>| selected s) = selected s |-| ts"
    by auto
  ultimately show "score (submit ts s) = score (submit (ts |\<inter>| selected s) s)"
    using assms by (simp add: submit_score)
next
  show "score s \<le> score (submit ts s)" by (rule submit_score_le)
next
  assume d: "selected s \<noteq> {||} \<and> selected s |\<inter>| ts = {||}"
  then show "\<exists>r. results (submit ts s) = Some r \<and> correct r = {||}"
    using assms by (simp add: submit_results)
  from d show "score (submit ts s) = score s"
    using assms by (simp add: submit_score fcard_fempty)
qed

theorem submit_score_delta_witness:
  "\<not> isFlashing sampleSelecting
   \<and> score (submit {|0, 2, 4|} sampleSelecting) = 0
   \<and> score (submit {|0, 1, 2|} sampleSelecting) = 2
   \<and> selected sampleSelecting \<noteq> {||} \<and> selected sampleSelecting |\<inter>| {|3, 5|} = {||}
   \<and> score (submit {|3, 5|} sampleSelecting) = score sampleSelecting"
proof -
  have h: "\<not> isFlashing sampleSelecting"
    by (simp add: sampleSelecting_def)
  have d: "selected sampleSelecting \<noteq> {||} \<and> selected sampleSelecting |\<inter>| {|3, 5|} = {||}"
    by (simp add: sampleSelecting_def)
  have "score (submit {|0, 2, 4|} sampleSelecting) = 0"
    using submit_score_delta [OF h, of "{|0, 2, 4|}"]
    by (simp add: sampleSelecting_def fset_eval)
  moreover have "score (submit {|0, 1, 2|} sampleSelecting) = 2"
    using submit_score_delta [OF h, of "{|0, 1, 2|}"]
    by (simp add: sampleSelecting_def fset_eval)
  moreover have "score (submit {|3, 5|} sampleSelecting) = score sampleSelecting"
    using submit_score_delta [OF h, of "{|3, 5|}"] d by simp
  ultimately show ?thesis using h d by simp
qed

text \<open>
  Claim C3. When the round is not flashing and the selection equals the target set, the result
  of \<open>submit\<close> has as many correct cells as there are targets, no incorrect cell, and the
  score grows by the number of targets.
\<close>
theorem submit_exact_selection:
  assumes "\<not> isFlashing s" and "selected s = ts"
  shows "\<exists>r. results (submit ts s) = Some r
           \<and> fcard (correct r) = fcard ts
           \<and> incorrect r = {||}
           \<and> score (submit ts s) = score s + int (fcard ts)"
  using assms by (auto simp: submit_unfold fcard_fempty)

theorem submit_exact_selection_witness:
  "\<not> isFlashing sampleSelecting \<and> selected sampleSelecting = {|0, 1|}
   \<and> results (submit {|0, 1|} sampleSelecting) = Some \<lparr>correct = {|0, 1|}, incorrect = {||}\<rparr>
   \<and> score (submit {|0, 1|} sampleSelecting) = 2"
proof -
  have h: "\<not> isFlashing sampleSelecting" and e: "selected sampleSelecting = {|0, 1|}"
    by (simp_all add: sampleSelecting_def)
  from submit_exact_selection [OF h e] obtain r where
    r: "results (submit {|0, 1|} sampleSelecting) = Some r" "fcard (correct r) = fcard {|0, 1::nat|}"
       "incorrect r = {||}"
       "score (submit {|0, 1|} sampleSelecting) = score sampleSelecting + int (fcard {|0, 1::nat|})"
    by blast
  have "correct r = {|0, 1|}"
    using r(1) h by (simp add: submit_results e)  (auto)
  with r have "results (submit {|0, 1|} sampleSelecting) = Some \<lparr>correct = {|0, 1|}, incorrect = {||}\<rparr>"
    by simp
  moreover from r(4) have "score (submit {|0, 1|} sampleSelecting) = 2"
    by (simp add: sampleSelecting_def fset_eval)
  ultimately show ?thesis using h e by simp
qed

text \<open>
  Claim C10. Whenever \<open>submit\<close> produces a result (the round is not flashing), the correct and
  the incorrect set of the result are disjoint and their union is the selection together with
  the target set.
\<close>
theorem submit_result_partition:
  assumes "\<not> isFlashing s"
  shows "\<exists>r. results (submit ts s) = Some r
           \<and> correct r |\<inter>| incorrect r = {||}
           \<and> correct r |\<union>| incorrect r = selected s |\<union>| ts"
proof -
  let ?r = "\<lparr>correct = selected s |\<inter>| ts,
             incorrect = (selected s |-| ts) |\<union>| (ts |-| selected s)\<rparr>"
  have "results (submit ts s) = Some ?r"
    using assms by (rule submit_results)
  moreover have "correct ?r |\<inter>| incorrect ?r = {||}"
    by auto
  moreover have "correct ?r |\<union>| incorrect ?r = selected s |\<union>| ts"
    by auto
  ultimately show ?thesis by blast
qed

theorem submit_result_partition_witness:
  "\<not> isFlashing sampleSelecting
   \<and> (\<exists>r. results (submit {|0, 2, 4|} sampleSelecting) = Some r
          \<and> correct r |\<inter>| incorrect r = {||}
          \<and> correct r |\<union>| incorrect r = {|0, 1, 2, 4|})"
proof -
  have h: "\<not> isFlashing sampleSelecting"
    by (simp add: sampleSelecting_def)
  have "selected sampleSelecting |\<union>| {|0, 2, 4|} = {|0, 1, 2, 4|}"
    by (auto simp: sampleSelecting_def)
  with submit_result_partition [OF h, of "{|0, 2, 4|}"] h show ?thesis
    by simp
qed

subsection \<open>Selection, score and level navigation\<close>

lemma toggleSelect_blocked: "isFlashing s \<or> results s \<noteq> None \<Longrightarrow> toggleSelect idx s = s"
  by (auto simp: toggleSelect_def)

lemma toggleSelect_selected:
  "\<not> isFlashing s \<Longrightarrow> results s = None \<Longrightarrow>
   selected (toggleSelect idx s) =
     (if idx |\<in>| selected s then selected s |-| {|idx|} else finsert idx (selected s))"
  by (simp add: toggleSelect_def)

lemma toggleSelect_twice: "toggleSelect idx (toggleSelect idx s) = s"
  by (cases "idx |\<in>| selected s")
     (auto simp: toggleSelect_def finsert_fminus fminus_finsert_absorb finsert_absorb)

lemma toggleSelect_score: "score (toggleSelect idx s) = score s"
  by (simp add: toggleSelect_def)

lemma startRound_score: "score (startRound s) = score s"
  by (simp add: startRound_def)

lemma setLevelIndex_score: "score (setLevelIndex i s) = score s"
  by (simp add: setLevelIndex_def startRound_score)

lemma nextLevel_score: "score (nextLevel s) = score s"
  by (simp add: nextLevel_def setLevelIndex_score)

lemma prevLevel_score: "score (prevLevel s) = score s"
  by (simp add: prevLevel_def setLevelIndex_score)

lemma resetLevel_score: "score (resetLevel s) = score s"
  by (simp add: resetLevel_def startRound_score)

lemma step_score_other: "e \<noteq> Submit \<Longrightarrow> score (step e s) = score s"
  by (cases e)
     (simp_all add: toggleSelect_score clickNext_def clickPrev_def nextLevel_score
        prevLevel_score setLevelIndex_score resetLevel_score toggleHint_def flashTick_def
        countdownTick_def stopFlashing_def)

lemma step_score_le: "score s \<le> score (step e s)"
proof (cases "e = Submit")
  case True
  then show ?thesis by (simp add: submit_score_le)
next
  case False
  then show ?thesis by (simp add: step_score_other)
qed

lemma run_score_le: "score s \<le> score (run es s)"
proof (induction es arbitrary: s)
  case Nil
  show ?case by simp
next
  case (Cons e es)
  have "score s \<le> score (step e s)" by (rule step_score_le)
  also have "\<dots> \<le> score (run es (step e s))" by (rule Cons.IH)
  finally show ?case by simp
qed

lemma setLevelIndex_levelIndex: "levelIndex (setLevelIndex i s) = i"
  by (simp add: setLevelIndex_def startRound_def)

lemma length_LEVELS: "length LEVELS = 5"
  by (simp add: LEVELS_def)

lemma nextLevel_levelIndex: "levelIndex (nextLevel s) = min 4 (levelIndex s + 1)"
  by (simp add: nextLevel_def setLevelIndex_levelIndex length_LEVELS)

lemma prevLevel_levelIndex: "levelIndex (prevLevel s) = levelIndex s - 1"
  by (simp add: prevLevel_def setLevelIndex_levelIndex)

lemma step_levelIndex: "levelIndex s < 5 \<Longrightarrow> levelIndex (step e s) < 5"
  by (cases e)
     (auto simp: toggleSelect_def submit_def Let_def clickNext_def clickPrev_def
        nextLevel_levelIndex prevLevel_levelIndex setLevelIndex_levelIndex length_LEVELS
        resetLevel_def startRound_def toggleHint_def flashTick_def countdownTick_def
        stopFlashing_def)

lemma run_levelIndex: "levelIndex s < 5 \<Longrightarrow> levelIndex (run es s) < 5"
  by (induction es arbitrary: s) (simp_all add: step_levelIndex)

text \<open>
  Claim C6. In the Selecting phase (not flashing, no result set) \<open>toggleSelect idx\<close> flips
  the membership of \<open>idx\<close> in the selection, adding it if absent and removing it if present,
  and leaves every other index as it was; toggling the same index twice gives back the state
  before. While the round is flashing, or once a result is set, \<open>toggleSelect\<close> changes
  nothing.
\<close>
theorem toggleSelect_flip:
  "(\<not> isFlashing s \<and> results s = None \<longrightarrow>
      selected (toggleSelect idx s) =
        (if idx |\<in>| selected s then selected s |-| {|idx|} else finsert idx (selected s))
      \<and> (idx |\<in>| selected (toggleSelect idx s) \<longleftrightarrow> idx |\<notin>| selected s)
      \<and> (\<forall>j. j \<noteq> idx \<longrightarrow> (j |\<in>| selected (toggleSelect idx s) \<longleftrightarrow> j |\<in>| selected s))
      \<and> selected (toggleSelect idx (toggleSelect idx s)) = selected s)
   \<and> toggleSelect idx (toggleSelect idx s) = s
   \<and> (isFlashing s \<or> results s \<noteq> None \<longrightarrow> toggleSelect idx s = s)
   \<and> (phase s = Selecting \<longleftrightarrow> \<not> isFlashing s \<and> results s = None)"
proof (intro conjI impI)
  assume a: "\<not> isFlashing s \<and> results s = None"
  then have sel: "selected (toggleSelect idx s) =
      (if idx |\<in>| selected s then selected s |-| {|idx|} else finsert idx (selected s))"
    by (simp add: toggleSelect_selected)
  then show "selected (toggleSelect idx s) =
      (if idx |\<in>| selected s then selected s |-| {|idx|} else finsert idx (selected s))" .
  from sel show "idx |\<in>| selected (toggleSelect idx s) \<longleftrightarrow> idx |\<notin>| selected s"
    by simp
  from sel show "\<forall>j. j \<noteq> idx \<longrightarrow> (j |\<in>| selected (toggleSelect idx s) \<longleftrightarrow> j |\<in>| selected s)"
    by simp
  show "selected (toggleSelect idx (toggleSelect idx s)) = selected s"
    by (simp add: toggleSelect_twice)
next
  show "toggleSelect idx (toggleSelect idx s) = s" by (rule toggleSelect_twice)
next
  assume "isFlashing s \<or> results s \<noteq> None"
  then show "toggleSelect idx s = s" by (rule toggleSelect_blocked)
next
  show "phase s = Selecting \<longleftrightarrow> \<not> isFlashing s \<and> results s = None"
    by (simp add: phase_def)
qed

theorem toggleSelect_flip_witness:
  "\<not> isFlashing sampleSelecting \<and> results sampleSelecting = None
   \<and> selected (toggleSelect 1 sampleSelecting) = {|0|}
   \<and> selected (toggleSelect 2 sampleSelecting) = {|0, 1, 2|}
   \<and> results sampleResulted \<noteq> None \<and> toggleSelect 1 sampleResulted = sampleResulted
   \<and> isFlashing initialState \<and> toggleSelect 1 initialState = initialState"
proof -
  have a: "\<not> isFlashing sampleSelecting \<and> results sampleSelecting = None"
    by (simp add: sampleSelecting_def)
  have b: "results sampleResulted \<noteq> None"
    by (simp add: sampleResulted_def)
  have c: "isFlashing initialState"
    by (simp add: initialState_def)
  from a toggleSelect_flip [of sampleSelecting 1]
  have "selected (toggleSelect 1 sampleSelecting) =
      (if 1 |\<in>| selected sampleSelecting then selected sampleSelecting |-| {|1|}
       else finsert 1 (selected sampleSelecting))"
    by blast
  then have "selected (toggleSelect 1 sampleSelecting) = {|0|}"
    by (simp add: sampleSelecting_def fset_eval)
  moreover from a toggleSelect_flip [of sampleSelecting 2]
  have "selected (toggleSelect 2 sampleSelecting) =
      (if 2 |\<in>| selected sampleSelecting then selected sampleSelecting |-| {|2|}
       else finsert 2 (selected sampleSelecting))"
    by blast
  then have "selected (toggleSelect 2 sampleSelecting) = {|0, 1, 2|}"
    by (auto simp: sampleSelecting_def)
  moreover from b toggleSelect_flip [of sampleResulted 1]
  have "toggleSelect 1 sampleResulted = sampleResulted"
    by blast
  moreover from c toggleSelect_flip [of initialState 1]
  have "toggleSelect 1 initialState = initialState"
    by blast
  ultimately show ?thesis using a b c by simp
qed

text \<open>
  Claim C7. No event of the component lowers the score, and every event other than a
  submission leaves it as it was; the same holds of the handlers themselves (submit, toggle,
  next, previous, level choice, restart). The score starts at 0, so it is non-negative after
  any sequence of events, and it only grows along a longer sequence.
\<close>
theorem score_never_decreases:
  "score s \<le> score (step e s)
   \<and> (e \<noteq> Submit \<longrightarrow> score (step e s) = score s)
   \<and> score s \<le> score (submit ts s)
   \<and> score (toggleSelect idx s) = score s
   \<and> score (nextLevel s) = score s
   \<and> score (prevLevel s) = score s
   \<and> score (setLevelIndex i s) = score s
   \<and> score (resetLevel s) = score s
   \<and> score initialState = 0
   \<and> 0 \<le> score (run es initialState)
   \<and> score (run es initialState) \<le> score (run (es @ es') initialState)"
proof (intro conjI impI)
  show "score s \<le> score (step e s)" by (rule step_score_le)
  show "score s \<le> score (submit ts s)" by (rule submit_score_le)
  show "score (toggleSelect idx s) = score s" by (rule toggleSelect_score)
  show "score (nextLevel s) = score s" by (rule nextLevel_score)
  show "score (prevLevel s) = score s" by (rule prevLevel_score)
  show "score (setLevelIndex i s) = score s" by (rule setLevelIndex_score)
  show "score (resetLevel s) = score s" by (rule resetLevel_score)
  show z: "score initialState = 0" by (simp add: initialState_def)
  from run_score_le [of initialState es] z show "0 \<le> score (run es initialState)"
    by simp
  show "score (run es initialState) \<le> score (run (es @ es') initialState)"
    by (simp add: run_append run_score_le)
next
  assume "e \<noteq> Submit"
  then show "score (step e s) = score s" by (rule step_score_other)
qed

theorem score_never_decreases_witness:
  "ResetLevel \<noteq> Submit \<and> score (step ResetLevel sampleResulted) = 1
   \<and> score (run [FlashTimeout, ToggleSelect 0, Submit] initialState) = 1
   \<and> 1 \<le> score (run ([FlashTimeout, ToggleSelect 0, Submit] @ [NextLevel, FlashTimeout, Submit])
                  initialState)"
proof -
  note w = score_never_decreases [of sampleResulted ResetLevel "{||}" 0 0
      "[FlashTimeout, ToggleSelect 0, Submit]" "[NextLevel, FlashTimeout, Submit]"]
  have "score (step ResetLevel sampleResulted) = score sampleResulted"
    using w by simp
  then have "score (step ResetLevel sampleResulted) = 1"
    by (simp add: sampleResulted_def)
  moreover have r: "score (run [FlashTimeout, ToggleSelect 0, Submit] initialState) = 1"
    by (simp only: run_sampleResulted) (simp add: sampleResulted_def)
  moreover have "score (run [FlashTimeout, ToggleSelect 0, Submit] initialState)
      \<le> score (run ([FlashTimeout, ToggleSelect 0, Submit] @ [NextLevel, FlashTimeout, Submit])
            initialState)"
    using w by (elim conjE)
  ultimately show ?thesis by (simp only: r) simp
qed

text \<open>
  Claim C8. \<open>nextLevel\<close> moves the level index \<open>i\<close> to \<open>min 4 (i + 1)\<close> and
  \<open>prevLevel\<close> to \<open>max 0 (i - 1)\<close>: at the last level next changes nothing, at the first
  level previous changes nothing, there is no wraparound. The catalog has five levels and the
  level index stays below five after any sequence of events.
\<close>
theorem level_navigation_clamps:
  "levelIndex (nextLevel s) = min 4 (levelIndex s + 1)
   \<and> int (levelIndex (prevLevel s)) = max 0 (int (levelIndex s) - 1)
   \<and> levelIndex (nextLevel s) < length LEVELS
   \<and> (levelIndex s < length LEVELS \<longrightarrow> levelIndex (prevLevel s) < length LEVELS)
   \<and> (levelIndex s = 4 \<longrightarrow> nextLevel s = s)
   \<and> (levelIndex s = 0 \<longrightarrow> prevLevel s = s)
   \<and> length LEVELS = 5
   \<and> levelIndex (run es initialState) < length LEVELS"
proof (intro conjI impI)
  show "levelIndex (nextLevel s) = min 4 (levelIndex s + 1)"
    by (rule nextLevel_levelIndex)
  show "int (levelIndex (prevLevel s)) = max 0 (int (levelIndex s) - 1)"
    by (simp add: prevLevel_levelIndex)
  show "levelIndex (nextLevel s) < length LEVELS"
    by (simp add: nextLevel_levelIndex length_LEVELS)
  show "length LEVELS = 5" by (rule length_LEVELS)
  have "levelIndex initialState < 5" by (simp add: initialState_def)
  then show "levelIndex (run es initialState) < length LEVELS"
    by (simp add: run_levelIndex length_LEVELS)
next
  assume "levelIndex s < length LEVELS"
  then show "levelIndex (prevLevel s) < length LEVELS"
    by (simp add: prevLevel_levelIndex length_LEVELS)
next
  assume "levelIndex s = 4"
  then show "nextLevel s = s"
    by (simp add: nextLevel_def setLevelIndex_def length_LEVELS)
next
  assume "levelIndex s = 0"
  then show "prevLevel s = s"
    by (simp add: prevLevel_def setLevelIndex_def)
qed

theorem level_navigation_clamps_witness:
  "levelIndex sampleSelecting = 0 \<and> levelIndex sampleSelecting < length LEVELS
   \<and> prevLevel sampleSelecting = sampleSelecting
   \<and> levelIndex (nextLevel sampleSelecting) = 1
   \<and> levelIndex (run [NextLevel, NextLevel, NextLevel, NextLevel] initialState) = 4
   \<and> nextLevel (run [NextLevel, NextLevel, NextLevel, NextLevel] initialState)
       = run [NextLevel, NextLevel, NextLevel, NextLevel] initialState"
proof -
  let ?s4 = "run [NextLevel, NextLevel, NextLevel, NextLevel] initialState"
  have z: "levelIndex sampleSelecting = 0"
    by (simp add: sampleSelecting_def)
  have l4: "levelIndex ?s4 = 4"
    by (simp add: initialState_def clickNext_def length_LEVELS nextLevel_levelIndex)
  from z level_navigation_clamps [of sampleSelecting] have "prevLevel sampleSelecting = sampleSelecting"
    by blast
  moreover from level_navigation_clamps [of sampleSelecting] have "levelIndex (nextLevel sampleSelecting) = 1"
    by (simp add: z)
  moreover from l4 level_navigation_clamps [of ?s4] have "nextLevel ?s4 = ?s4"
    by blast
  moreover from level_navigation_clamps [of sampleSelecting] have "length LEVELS = 5"
    by blast
  ultimately show ?thesis using z l4 by simp
qed

text \<open>
  Claim C9. From any state, restarting the level gives a fresh Memorizing round: the round is
  flashing with the flash visible, the selection is empty, there is no result, the hint is
  hidden and the countdown is back at \<open>ceil (10000 / 1000) = 10\<close> seconds. The level index and
  the score are kept, and the round counter goes up by one: that counter, not the level
  index, is what starts the new round, since setting the level index to its current value
  changes nothing.
\<close>
theorem resetLevel_fresh_round:
  "phase (resetLevel s) = Memorizing
   \<and> isFlashing (resetLevel s)
   \<and> flashOn (resetLevel s)
   \<and> selected (resetLevel s) = {||}
   \<and> results (resetLevel s) = None
   \<and> hintShown (resetLevel s) = False
   \<and> timeLeft (resetLevel s) = nat \<lceil>real FLASH_DURATION_MS / 1000\<rceil>
   \<and> timeLeft (resetLevel s) = 10
   \<and> round_ctr (resetLevel s) = round_ctr s + 1
   \<and> levelIndex (resetLevel s) = levelIndex s
   \<and> score (resetLevel s) = score s
   \<and> step ResetLevel s = resetLevel s
   \<and> setLevelIndex (levelIndex s) s = s"
  by (simp add: resetLevel_def startRound_def phase_def fullTime_10 setLevelIndex_def)
     (simp add: FLASH_DURATION_MS_def)

end
